theory Spec2Isabelle
  imports Complex_Main "HOL-Library.Product_Lexorder"
begin

section \<open>GRIT: transcript assembly and abundance estimation\<close>

text \<open>
  A shallow embedding of the parts of \<^verbatim>\<open>grit/find_elements.py\<close>,
  \<^verbatim>\<open>grit/build_transcripts.py\<close> and \<^verbatim>\<open>file_types/fast_gtf_parser/gtf.py\<close>
  that the specification talks about. Python integers are \<^typ>\<open>int\<close>, Python and numpy
  floats are idealised as \<^typ>\<open>real\<close> (exact arithmetic, no NaN, no rounding),
  tuples are pairs, lists are lists, and every \<^verbatim>\<open>raise\<close> or failed
  \<^verbatim>\<open>assert\<close> is a value of \<open>py_error\<close> on the left of a sum.
  Tuples sort lexicographically, as Python's do.
\<close>

datatype py_error = IndexError | AssertionError | ValueError | ZeroDivisionError | KeyError
  | MemoryError | SystemError | KeyboardInterrupt | SystemExit

subsection \<open>Data model: transcripts and genes\<close>

text \<open>
  The classes \<^verbatim>\<open>Transcript\<close> and \<^verbatim>\<open>Gene\<close> are imported from a module
  that is not part of the sources at hand; the records hold the attributes that the
  functions below read and write. Exons are closed intervals \<open>(start, stop)\<close>.
\<close>

record transcript =
  t_id :: string
  exons :: "(int \<times> int) list"
  t_start :: int
  t_stop :: int
  score :: "int option"

record gene =
  g_id :: string
  chrm :: string
  strand :: string
  g_start :: int
  g_stop :: int
  transcripts :: "transcript list"

text \<open>
  Python helpers: indexing a list (negative indices count from the end, anything else
  out of range raises), \<^verbatim>\<open>max\<close> and \<^verbatim>\<open>min\<close> of a sequence (they raise on an empty one) and
  \<^verbatim>\<open>int\<close> of a float (truncation towards zero).
\<close>

definition py_index :: "'a list \<Rightarrow> int \<Rightarrow> py_error + 'a" where
  "py_index xs i =
     (if 0 \<le> i \<and> i < int (length xs) then Inr (xs ! nat i)
      else if i < 0 \<and> - int (length xs) \<le> i then Inr (xs ! nat (int (length xs) + i))
      else Inl IndexError)"

fun py_max :: "real list \<Rightarrow> py_error + real" where
  "py_max [] = Inl ValueError"
| "py_max (x # xs) = Inr (fold max xs x)"

fun py_min :: "real list \<Rightarrow> py_error + real" where
  "py_min [] = Inl ValueError"
| "py_min (x # xs) = Inr (fold min xs x)"

definition py_int :: "real \<Rightarrow> int" where
  "py_int x = (if 0 \<le> x then \<lfloor>x\<rfloor> else \<lceil>x\<rceil>)"

text \<open>A small gene with two transcripts, used to exercise the definitions.\<close>

definition t1 :: transcript where
  "t1 = \<lparr>t_id = ''G1_0'', exons = [(100, 199)], t_start = 100, t_stop = 199, score = None\<rparr>"

definition t2 :: transcript where
  "t2 = \<lparr>t_id = ''G1_1'', exons = [(100, 149), (300, 399)], t_start = 100, t_stop = 399, score = None\<rparr>"

definition g1 :: gene where
  "g1 = \<lparr>g_id = ''G1'', chrm = ''chr2L'', strand = ''+'', g_start = 100, g_stop = 399,
          transcripts = [t1, t2]\<rparr>"

subsection \<open>find\_elements.py: empty and transcribed regions\<close>

text \<open>
  \<^verbatim>\<open>numpy.diff\<close> of a one-dimensional array and the index list
  \<^verbatim>\<open>numpy.nonzero(x == v)[0]\<close>.
\<close>

definition np_diff :: "int list \<Rightarrow> int list" where
  "np_diff xs = map (\<lambda>i. xs ! (i + 1) - xs ! i) [0..<length xs - 1]"

definition np_nonzero_eq :: "int list \<Rightarrow> int \<Rightarrow> int list" where
  "np_nonzero_eq xs v = map int (filter (\<lambda>i. xs ! i = v) [0..<length xs])"

definition find_empty_regions :: "real list \<Rightarrow> real \<Rightarrow> int \<Rightarrow> py_error + (int \<times> int) list" where
  "find_empty_regions cov thresh min_length =
     (if cov = [] then Inl IndexError
      else
        let x = np_diff (map (\<lambda>c. if thresh \<le> c then 1 else 0) cov);
            stops = np_nonzero_eq x 1;
            stops = (if last cov < thresh then stops @ [int (length x)] else stops);
            starts = map (\<lambda>i. i + 1) (np_nonzero_eq x (- 1));
            starts = (if hd cov < thresh then 0 # starts else starts)
        in if length starts \<noteq> length stops then Inl AssertionError
           else Inr (filter (\<lambda>x. min_length \<le> snd x - fst x + 1) (zip starts stops)))"

fun transcribed_loop :: "int list list \<Rightarrow> (int \<times> int) list \<Rightarrow> int list list" where
  "transcribed_loop transcribed_regions [] = transcribed_regions"
| "transcribed_loop transcribed_regions ((start, stop) # rest) =
     transcribed_loop
       ((butlast transcribed_regions @ [last transcribed_regions @ [start - 1]]) @ [[stop + 1]])
       rest"

definition find_transcribed_regions :: "real list \<Rightarrow> real \<Rightarrow> py_error + int list list" where
  "find_transcribed_regions cov thresh =
     (case find_empty_regions cov thresh 0 of
        Inl e \<Rightarrow> Inl e
      | Inr empty_regions \<Rightarrow>
          if length empty_regions = 0 then Inr [[0, int (length cov) - 1]]
          else
            let first_is_empty = (fst (hd empty_regions) = 0);
                transcribed_regions =
                  (if first_is_empty then [[snd (hd empty_regions) + 1]] else [[0]]);
                empty_regions = (if first_is_empty then tl empty_regions else empty_regions);
                transcribed_regions = transcribed_loop transcribed_regions empty_regions
            in if hd (last transcribed_regions) = int (length cov)
               then Inr (butlast transcribed_regions)
               else Inr (butlast transcribed_regions
                         @ [last transcribed_regions @ [int (length cov) - 1]]))"

subsection \<open>find\_elements.py: merging adjacent intervals\<close>

text \<open>
  \<^verbatim>\<open>merge_adjacent_intervals\<close> sorts its argument and walks it once.
  \<open>merge_loop\<close> is the \<^verbatim>\<open>for\<close> loop: \<open>merged\<close> is the list
  \<^verbatim>\<open>merged_intervals\<close>, whose last entry the loop overwrites in place.
\<close>

fun merge_loop :: "int \<Rightarrow> (int \<times> int) list \<Rightarrow> int \<Rightarrow> (int \<times> int) list \<Rightarrow> (int \<times> int) list" where
  "merge_loop d merged prev_stop [] = merged"
| "merge_loop d merged prev_stop ((start, stop) # rest) =
     (if start - d - 1 \<le> prev_stop
      then merge_loop d (butlast merged @ [(fst (last merged), stop)]) stop rest
      else merge_loop d (merged @ [(start, stop)]) stop rest)"

definition merge_adjacent_intervals :: "(int \<times> int) list \<Rightarrow> int \<Rightarrow> (int \<times> int) list" where
  "merge_adjacent_intervals intervals max_merge_distance =
     (if length intervals = 0 then []
      else let sorted_intervals = sort intervals;
               merged_intervals = [hd sorted_intervals];
               prev_stop = snd (last merged_intervals)
           in merge_loop max_merge_distance merged_intervals prev_stop (tl sorted_intervals))"


text \<open>
  An auxiliary view of the same loop for the proofs: the interval still open is kept
  apart from the closed ones (\<open>merge_loop_open\<close> below relates the two).
\<close>

fun merge_open :: "int \<Rightarrow> int \<Rightarrow> int \<Rightarrow> (int \<times> int) list \<Rightarrow> (int \<times> int) list" where
  "merge_open d s0 p [] = [(s0, p)]"
| "merge_open d s0 p ((a, b) # rest) =
     (if a - d - 1 \<le> p then merge_open d s0 b rest else (s0, p) # merge_open d a b rest)"

subsection \<open>build\_transcripts.py: writing a gene to the assembly output\<close>









subsection \<open>find\_elements.py: segment boundaries and the splice graph\<close>










subsection \<open>find\_elements.py: exons from exon segments\<close>

text \<open>
  \<^verbatim>\<open>SegmentBin\<close> and \<^verbatim>\<open>TranscriptElement\<close> with the attributes their
  constructors set; the constructor of \<^verbatim>\<open>TranscriptElement\<close> asserts
  \<^verbatim>\<open>stop - start >= 0\<close>. The label lists of a segment are already sorted.
\<close>

record segment_bin =
  sb_start :: int
  sb_stop :: int
  left_labels :: "string list"
  right_labels :: "string list"
  fpkm_lb :: real
  fpkm :: real
  fpkm_ub :: real

record transcript_element =
  te_start :: int
  te_stop :: int
  te_type :: string
  te_fpkm :: real

definition new_TranscriptElement ::
  "int \<Rightarrow> int \<Rightarrow> string \<Rightarrow> real \<Rightarrow> py_error + transcript_element" where
  "new_TranscriptElement start stop ty v =
     (if \<not> 0 \<le> stop - start then Inl AssertionError
      else Inr \<lparr>te_start = start, te_stop = stop, te_type = ty, te_fpkm = v\<rparr>)"

text \<open>
  \<^verbatim>\<open>determine_exon_type\<close>, with each \<^verbatim>\<open>assert\<close> as a branch.
\<close>

definition determine_exon_type :: "string \<Rightarrow> string \<Rightarrow> py_error + string" where
  "determine_exon_type left_label right_label =
     (if left_label = ''TSS'' then
        (if right_label = ''TES'' then Inr ''SE_GENE''
         else if right_label \<noteq> ''D_JN'' then Inl AssertionError
         else Inr ''TSS_EXON'')
      else if right_label = ''TES'' then
        (if \<not> left_label \<noteq> ''TES'' then Inl AssertionError
         else if left_label \<noteq> ''R_JN'' then Inl AssertionError
         else Inr ''TES_EXON'')
      else if \<not> (left_label = ''R_JN'' \<and> right_label = ''D_JN'') then Inl AssertionError
      else Inr ''EXON'')"

definition EXON_START_LABELS :: "string list" where
  "EXON_START_LABELS = [''TSS'', ''R_JN'']"

definition EXON_STOP_LABELS :: "string list" where
  "EXON_STOP_LABELS = [''TES'', ''D_JN'']"

text \<open>
  \<^verbatim>\<open>build_exons_from_exon_segments\<close>: four nested loops, innermost first. The
  two \<^verbatim>\<open>break\<close>s of the loop over \<open>j\<close> end that loop with what was found.
  \<^verbatim>\<open>config.MIN_EXON_FPKM\<close> and \<^verbatim>\<open>config.MAX_EXPRESISON_RATIO\<close> come
  from a configuration module and are parameters here.
\<close>

fun stop_label_loop ::
  "segment_bin list \<Rightarrow> nat \<Rightarrow> string \<Rightarrow> nat \<Rightarrow> string list \<Rightarrow>
   py_error + transcript_element list" where
  "stop_label_loop exon_segments i start_label j [] = Inr []"
| "stop_label_loop exon_segments i start_label j (stop_label # labels) =
     (if stop_label \<notin> set EXON_STOP_LABELS
      then stop_label_loop exon_segments i start_label j labels
      else
        (case py_min (map fpkm (take (j + 1 - i) (drop i exon_segments))) of
          Inl e \<Rightarrow> Inl e
        | Inr v \<Rightarrow>
        (case determine_exon_type start_label stop_label of
          Inl e \<Rightarrow> Inl e
        | Inr ty \<Rightarrow>
        (case new_TranscriptElement (sb_start (exon_segments ! i)) (sb_stop (exon_segments ! j)) ty v of
          Inl e \<Rightarrow> Inl e
        | Inr exon_bin \<Rightarrow>
        (case stop_label_loop exon_segments i start_label j labels of
          Inl e \<Rightarrow> Inl e
        | Inr found \<Rightarrow> Inr (exon_bin # found))))))"

fun stop_segment_loop ::
  "real \<Rightarrow> real \<Rightarrow> real \<Rightarrow> segment_bin list \<Rightarrow> nat \<Rightarrow> string \<Rightarrow> nat list \<Rightarrow>
   py_error + transcript_element list" where
  "stop_segment_loop MIN_EXON_FPKM MAX_EXPRESISON_RATIO max_min_ee exon_segments i start_label [] =
     Inr []"
| "stop_segment_loop MIN_EXON_FPKM MAX_EXPRESISON_RATIO max_min_ee exon_segments i start_label
     (j # js) =
     (let stop_segment = exon_segments ! j in
      if fpkm_ub stop_segment < MIN_EXON_FPKM then Inr []
      else if fpkm_ub stop_segment * MAX_EXPRESISON_RATIO < max_min_ee then Inr []
      else
        (case stop_label_loop exon_segments i start_label j (right_labels stop_segment) of
          Inl e \<Rightarrow> Inl e
        | Inr found \<Rightarrow>
        (case stop_segment_loop MIN_EXON_FPKM MAX_EXPRESISON_RATIO max_min_ee exon_segments i
               start_label js of
          Inl e \<Rightarrow> Inl e
        | Inr later \<Rightarrow> Inr (found @ later))))"

fun start_label_loop ::
  "real \<Rightarrow> real \<Rightarrow> real \<Rightarrow> segment_bin list \<Rightarrow> nat \<Rightarrow> string list \<Rightarrow>
   py_error + transcript_element list" where
  "start_label_loop MIN_EXON_FPKM MAX_EXPRESISON_RATIO max_min_ee exon_segments i [] = Inr []"
| "start_label_loop MIN_EXON_FPKM MAX_EXPRESISON_RATIO max_min_ee exon_segments i
     (start_label # labels) =
     (if start_label \<notin> set EXON_START_LABELS
      then start_label_loop MIN_EXON_FPKM MAX_EXPRESISON_RATIO max_min_ee exon_segments i labels
      else
        (case stop_segment_loop MIN_EXON_FPKM MAX_EXPRESISON_RATIO max_min_ee exon_segments i
               start_label [i..<length exon_segments] of
          Inl e \<Rightarrow> Inl e
        | Inr found \<Rightarrow>
        (case start_label_loop MIN_EXON_FPKM MAX_EXPRESISON_RATIO max_min_ee exon_segments i
               labels of
          Inl e \<Rightarrow> Inl e
        | Inr later \<Rightarrow> Inr (found @ later))))"

fun start_segment_loop ::
  "real \<Rightarrow> real \<Rightarrow> real \<Rightarrow> segment_bin list \<Rightarrow> nat list \<Rightarrow>
   py_error + transcript_element list" where
  "start_segment_loop MIN_EXON_FPKM MAX_EXPRESISON_RATIO max_min_ee exon_segments [] = Inr []"
| "start_segment_loop MIN_EXON_FPKM MAX_EXPRESISON_RATIO max_min_ee exon_segments (i # is) =
     (case start_label_loop MIN_EXON_FPKM MAX_EXPRESISON_RATIO max_min_ee exon_segments i
             (left_labels (exon_segments ! i)) of
        Inl e \<Rightarrow> Inl e
      | Inr found \<Rightarrow>
      (case start_segment_loop MIN_EXON_FPKM MAX_EXPRESISON_RATIO max_min_ee exon_segments is of
        Inl e \<Rightarrow> Inl e
      | Inr later \<Rightarrow> Inr (found @ later)))"

definition build_exons_from_exon_segments ::
  "real \<Rightarrow> real \<Rightarrow> segment_bin list \<Rightarrow> py_error + transcript_element list" where
  "build_exons_from_exon_segments MIN_EXON_FPKM MAX_EXPRESISON_RATIO exon_segments =
     (case py_max (map fpkm_lb exon_segments) of
        Inl e \<Rightarrow> Inl e
      | Inr max_min_ee \<Rightarrow>
      (case py_max (map fpkm exon_segments) of
        Inl e \<Rightarrow> Inl e
      | Inr max_fpkm \<Rightarrow>
          start_segment_loop MIN_EXON_FPKM MAX_EXPRESISON_RATIO max_min_ee exon_segments
            [0..<length exon_segments]))"

text \<open>
  Three segments of a locus \<open>TSS \<dots> D_JN | intron | R_JN \<dots> TES\<close>, and the
  statement that an element was assembled from the run of segments \<open>i..j\<close>.
\<close>

definition seg :: "int \<Rightarrow> int \<Rightarrow> string list \<Rightarrow> string list \<Rightarrow> real \<Rightarrow> real \<Rightarrow> real \<Rightarrow> segment_bin" where
  "seg a b l r lo v hi =
     \<lparr>sb_start = a, sb_stop = b, left_labels = l, right_labels = r,
      fpkm_lb = lo, fpkm = v, fpkm_ub = hi\<rparr>"

definition example_segments :: "segment_bin list" where
  "example_segments =
     [seg 0 99 [''GENE_BNDRY'', ''TSS''] [''D_JN''] 4 5 6,
      seg 100 199 [''D_JN''] [''R_JN''] 1 2 3,
      seg 200 299 [''R_JN''] [''GENE_BNDRY'', ''TES''] 7 8 9]"

definition exon_of_run :: "segment_bin list \<Rightarrow> transcript_element \<Rightarrow> nat \<Rightarrow> nat \<Rightarrow> bool" where
  "exon_of_run segs e i j =
     (i \<le> j \<and> j < length segs
      \<and> te_start e = sb_start (segs ! i) \<and> te_stop e = sb_stop (segs ! j)
      \<and> te_fpkm e = Min (set (map fpkm (take (j + 1 - i) (drop i segs)))))"

subsection \<open>build\_transcripts.py: FPKM conversion\<close>








subsection \<open>build\_transcripts.py: writing a gene to the abundance-tracking output\<close>

text \<open>
  \<^verbatim>\<open>str\<close> and \<^verbatim>\<open>%i\<close> of an integer, \<^verbatim>\<open>sep.join\<close>, the header
  that \<^verbatim>\<open>parse_arguments\<close> writes, and \<^verbatim>\<open>write_gene_to_fpkm_tracking\<close>.
  The rendering \<^verbatim>\<open>"%.2e"\<close> of a float and the method
  \<^verbatim>\<open>Transcript.calc_length\<close> are parameters (\<open>fmt\<close>, \<open>calc_length\<close>).
\<close>

definition digit_char :: "nat \<Rightarrow> char" where
  "digit_char d = char_of (48 + d)"

fun str_nat :: "nat \<Rightarrow> string" where
  "str_nat n = (if n < 10 then [digit_char n] else str_nat (n div 10) @ [digit_char (n mod 10)])"

declare str_nat.simps [simp del]

definition str_int :: "int \<Rightarrow> string" where
  "str_int i = (if i < 0 then CHR ''-'' # str_nat (nat (- i)) else str_nat (nat i))"

fun py_join :: "string \<Rightarrow> string list \<Rightarrow> string" where
  "py_join sep [] = []"
| "py_join sep [x] = x"
| "py_join sep (x # y # ys) = x @ sep @ py_join sep (y # ys)"

definition fpkm_tracking_columns :: "string list" where
  "fpkm_tracking_columns =
     [''tracking_id'', ''class_code'', ''nearest_ref_id'', ''gene_id'',
      ''gene_short_name'', ''tss_id'', ''locus'', ''length'', ''coverageFPKM'',
      ''FPKM_conf_lo'', ''FPKM_conf_hi'', ''FPKM_status'']"

definition tracking_cell ::
  "(real \<Rightarrow> string) \<Rightarrow> real list option \<Rightarrow> int \<Rightarrow> py_error + string" where
  "tracking_cell fmt vals i =
     (case vals of
        None \<Rightarrow> Inr ''-''
      | Some vs \<Rightarrow> (case py_index vs i of Inl e \<Rightarrow> Inl e | Inr v \<Rightarrow> Inr (fmt v)))"

fun tracking_loop ::
  "(real \<Rightarrow> string) \<Rightarrow> (transcript \<Rightarrow> int) \<Rightarrow> gene \<Rightarrow> real list option \<Rightarrow> real list option \<Rightarrow>
   real list option \<Rightarrow> int list \<Rightarrow> nat \<Rightarrow> (nat \<times> transcript) list \<Rightarrow>
   py_error + string list list" where
  "tracking_loop fmt calc_length g lbs ubs fpkms unobservable n_skipped_ts [] = Inr []"
| "tracking_loop fmt calc_length g lbs ubs fpkms unobservable n_skipped_ts ((index, t) # rest) =
     (if int index \<in> set unobservable
      then tracking_loop fmt calc_length g lbs ubs fpkms unobservable (n_skipped_ts + 1) rest
      else
        let i = int index - int n_skipped_ts;
            line = replicate 12 ''-'';
            line = line[0 := g_id g];
            line = line[5 := t_id t];
            line = line[6 := chrm g @ '':'' @ str_int (t_start t) @ ''-'' @ str_int (t_stop t)];
            line = line[7 := str_int (calc_length t)];
            line = line[11 := ''OK'']
        in
        (case tracking_cell fmt fpkms i of Inl e \<Rightarrow> Inl e | Inr c8 \<Rightarrow>
        (case tracking_cell fmt lbs i of Inl e \<Rightarrow> Inl e | Inr c9 \<Rightarrow>
        (case tracking_cell fmt ubs i of Inl e \<Rightarrow> Inl e | Inr c10 \<Rightarrow>
        (case tracking_loop fmt calc_length g lbs ubs fpkms unobservable n_skipped_ts rest of
           Inl e \<Rightarrow> Inl e
         | Inr lines \<Rightarrow> Inr (line[8 := c8, 9 := c9, 10 := c10] # lines))))))"

definition write_gene_to_fpkm_tracking ::
  "(real \<Rightarrow> string) \<Rightarrow> (transcript \<Rightarrow> int) \<Rightarrow> gene \<Rightarrow> real list option \<Rightarrow> real list option \<Rightarrow>
   real list option \<Rightarrow> int list \<Rightarrow> py_error + string" where
  "write_gene_to_fpkm_tracking fmt calc_length g lbs ubs fpkms unobservable =
     (case tracking_loop fmt calc_length g lbs ubs fpkms unobservable 0
             (enumerate 0 (transcripts g)) of
        Inl e \<Rightarrow> Inl e
      | Inr lines \<Rightarrow> Inr (py_join [CHR 0x0A] (map (py_join [CHR 0x09]) lines) @ [CHR 0x0A]))"

subsection \<open>build\_transcripts.py: units of work\<close>

text \<open>
  A unit of work on the shared list \<^verbatim>\<open>input_queue\<close> is a pair of a work type and
  its data: \<^verbatim>\<open>(gene_id, bam_fn, trans_index)\<close> for a stage, and
  \<^verbatim>\<open>((gene_id, trans_index), msg)\<close> for an \<^verbatim>\<open>'ERROR'\<close>. A transcript index
  is \<^verbatim>\<open>None\<close>, an integer or a list of integers.
\<close>

datatype trans_index = NoIndex | Index int | Indices "int list"

datatype work_data =
    Task string "string option" trans_index
  | Failure string trans_index string

type_synonym work = "string \<times> work_data"

subsection \<open>build\_transcripts.py: the scheduler loop\<close>

text \<open>
  \<^verbatim>\<open>spawn_and_manage_children\<close> as a state machine. A slot of \<^verbatim>\<open>ps\<close> is
  \<^verbatim>\<open>None\<close> or a process that is alive or not. The scheduler is at the head of its
  \<^verbatim>\<open>while True\<close> loop, or holds a unit of work and waits for a free slot, or has
  left the loop; \<open>Crashed\<close> stands for a tuple that does not unpack. One step at the loop
  head is the \<^verbatim>\<open>pop\<close> with everything up to the next \<^verbatim>\<open>continue\<close> or
  \<^verbatim>\<open>break\<close> (the scheduler holds \<^verbatim>\<open>input_queue_lock\<close> from the pop to the test
  of the exit condition); one step while holding work is one round of the inner loop.
  With one thread the worker runs inside the scheduler and is a function on the queue.
\<close>

datatype control = AtLoopHead | HoldingWork work | Returned | Crashed

record scheduler =
  input_queue :: "work list"
  ps :: "bool option list"
  finished_queue :: "(string \<times> string) list"
  control :: control

definition slot_free :: "bool option \<Rightarrow> bool" where
  "slot_free p = (p = None \<or> \<not> the p)"




definition take_work :: "bool \<Rightarrow> scheduler \<Rightarrow> scheduler" where
  "take_work write_design_matrices s =
     (if input_queue s = [] then
        (if length (input_queue s) = 0 \<and> list_all slot_free (ps s)
         then s\<lparr>control := Returned\<rparr>
         else s)
      else
        let item = last (input_queue s);
            s = s\<lparr>input_queue := butlast (input_queue s)\<rparr>
        in
        if fst item = ''ERROR'' then
          (case snd item of Failure gene_id trans_index msg \<Rightarrow> s | Task _ _ _ \<Rightarrow> s\<lparr>control := Crashed\<rparr>)
        else
          (case snd item of
             Failure _ _ _ \<Rightarrow> s\<lparr>control := Crashed\<rparr>
           | Task gene_id bam_fn trans_index \<Rightarrow>
               if fst item = ''FINISHED''
               then s\<lparr>finished_queue := finished_queue s @ [(''gtf'', gene_id)]\<rparr>
               else
                 let s = (if fst item = ''mle'' \<and> write_design_matrices
                          then s\<lparr>finished_queue := finished_queue s @ [(''design_matrix'', gene_id)]\<rparr>
                          else s)
                 in s\<lparr>control := HoldingWork item\<rparr>))"








subsection \<open>build\_transcripts.py: the worker and its error handler\<close>





























section \<open>Verified properties\<close>

subsection \<open>Transcribed regions of a coverage array\<close>

lemma below_flags:
  fixes cov :: "real list"
  shows "\<forall>c\<in>set cov. c < thresh \<Longrightarrow>
   map (\<lambda>c. if thresh \<le> c then 1 else 0) cov = replicate (length cov) (0::int)"
  by (induction cov) auto

lemma above_flags:
  fixes cov :: "real list"
  shows "\<forall>c\<in>set cov. thresh \<le> c \<Longrightarrow>
   map (\<lambda>c. if thresh \<le> c then 1 else 0) cov = replicate (length cov) (1::int)"
  by (induction cov) auto

lemma np_diff_replicate: "np_diff (replicate n v) = replicate (n - 1) 0"
  by (auto simp: np_diff_def intro!: nth_equalityI)

lemma np_nonzero_eq_replicate: "v \<noteq> w \<Longrightarrow> np_nonzero_eq (replicate n v) w = []"
  by (simp add: np_nonzero_eq_def filter_empty_conv)

lemma find_empty_regions_all_below:
  assumes "cov \<noteq> []" "\<forall>c\<in>set cov. c < thresh" "m \<le> int (length cov)"
  shows "find_empty_regions cov thresh m = Inr [(0, int (length cov) - 1)]"
proof -
  have "last cov < thresh" "hd cov < thresh" using assms by auto
  moreover have "int (length cov - Suc 0) = int (length cov) - 1"
    using assms(1) by (cases cov) auto
  ultimately show ?thesis using assms
    by (simp add: find_empty_regions_def below_flags np_diff_replicate np_nonzero_eq_replicate Let_def)
qed

lemma find_empty_regions_all_above:
  assumes "cov \<noteq> []" "\<forall>c\<in>set cov. thresh \<le> c"
  shows "find_empty_regions cov thresh m = Inr []"
proof -
  have "\<not> last cov < thresh" "\<not> hd cov < thresh" using assms by (auto simp: not_less)
  then show ?thesis using assms
    by (simp add: find_empty_regions_def above_flags np_diff_replicate np_nonzero_eq_replicate Let_def)
qed

text \<open>
  Claim C3, as amended. The claim says that a coverage array in which no position
  carries evidence yields one transcribed region spanning the whole input. The code does
  the opposite: \<^verbatim>\<open>find_transcribed_regions\<close> returns the whole span
  \<open>[[0, len(cov) - 1]]\<close> when \<^emph>\<open>no empty region\<close> is found, and for a
  non-empty array that is entirely below the threshold it returns no region at all.
  Proved: for every non-empty coverage array, if every entry is below the threshold the
  result is the empty list, and if every entry reaches the threshold the result is the
  single region from \<open>0\<close> to \<open>len(cov) - 1\<close>.
\<close>

theorem find_transcribed_regions_no_evidence:
  "(cov \<noteq> [] \<and> (\<forall>c\<in>set cov. c < thresh) \<longrightarrow> find_transcribed_regions cov thresh = Inr [])
 \<and> (cov \<noteq> [] \<and> (\<forall>c\<in>set cov. thresh \<le> c) \<longrightarrow>
      find_transcribed_regions cov thresh = Inr [[0, int (length cov) - 1]])"
  by (simp add: find_transcribed_regions_def find_empty_regions_all_below find_empty_regions_all_above)

theorem find_transcribed_regions_no_evidence_witness:
  "[0, 0, 0] \<noteq> ([]::real list) \<and> list_all (\<lambda>c. c < 1 / 10 ^ 6) [0, 0, 0::real]
   \<and> find_transcribed_regions [0, 0, 0] (1 / 10 ^ 6) = Inr []
   \<and> [3, 5] \<noteq> ([]::real list) \<and> list_all (\<lambda>c. 1 / 10 ^ 6 \<le> c) [3, 5::real]
   \<and> find_transcribed_regions [3, 5] (1 / 10 ^ 6) = Inr [[0, 1]]"
  using find_transcribed_regions_no_evidence[of "[0, 0, 0]" "1 / 10 ^ 6"]
        find_transcribed_regions_no_evidence[of "[3, 5]" "1 / 10 ^ 6"]
  by simp

theorem find_transcribed_regions_no_evidence_counterexample:
  "find_transcribed_regions [0, 0, 0] (1 / 10 ^ 6) \<noteq> Inr [[0, 2]]"
proof -
  have "find_empty_regions [0, 0, 0] (1 / 10 ^ 6) 0 = Inr [(0, 2)]"
    using find_empty_regions_all_below[of "[0, 0, 0]" "1 / 10 ^ 6" 0] by simp
  then show ?thesis by (simp add: find_transcribed_regions_def)
qed

subsection \<open>Merging adjacent intervals\<close>

lemma merge_loop_open:
  "merge_loop d (ms @ [(s0, p)]) p rest = ms @ merge_open d s0 p rest"
proof (induction rest arbitrary: ms s0 p)
  case Nil
  then show ?case by simp
next
  case (Cons x rest)
  obtain a b where x: "x = (a, b)" by (cases x)
  show ?case
  proof (cases "a - d - 1 \<le> p")
    case True
    then show ?thesis using Cons.IH[of ms s0 b] x by simp
  next
    case False
    then show ?thesis using Cons.IH[of "ms @ [(s0, p)]" a b] x by simp
  qed
qed

lemma merge_adjacent_intervals_open:
  "xs \<noteq> [] \<Longrightarrow> merge_adjacent_intervals xs d =
     merge_open d (fst (hd (sort xs))) (snd (hd (sort xs))) (tl (sort xs))"
  using merge_loop_open[of d "[]" "fst (hd (sort xs))" "snd (hd (sort xs))" "tl (sort xs)"]
  by (simp add: merge_adjacent_intervals_def Let_def)

lemma merge_open_lower:
  "sorted (s0 # map fst rest) \<Longrightarrow> r \<in> set (merge_open d s0 p rest) \<Longrightarrow> s0 \<le> fst r"
proof (induction rest arbitrary: s0 p)
  case Nil
  then show ?case by simp
next
  case (Cons x rest)
  obtain a b where x: "x = (a, b)" by (cases x)
  have s0a: "s0 \<le> a" and sa: "sorted (a # map fst rest)" and s0r: "sorted (s0 # map fst rest)"
    using Cons.prems(1) x by auto
  show ?case
  proof (cases "a - d - 1 \<le> p")
    case True
    then show ?thesis using Cons.IH[OF s0r, of b] Cons.prems(2) x by simp
  next
    case False
    then have "r = (s0, p) \<or> r \<in> set (merge_open d a b rest)" using Cons.prems x by simp
    then show ?thesis
    proof
      assume "r = (s0, p)" then show ?thesis by simp
    next
      assume r: "r \<in> set (merge_open d a b rest)"
      then have "a \<le> fst r" using Cons.IH[OF sa] by simp
      then show ?thesis using s0a by simp
    qed
  qed
qed

lemma merge_open_wf:
  "s0 \<le> p \<Longrightarrow> sorted (s0 # map fst rest) \<Longrightarrow> \<forall>x\<in>set rest. fst x \<le> snd x \<Longrightarrow>
   r \<in> set (merge_open d s0 p rest) \<Longrightarrow> fst r \<le> snd r"
proof (induction rest arbitrary: s0 p)
  case Nil
  then show ?case by simp
next
  case (Cons x rest)
  obtain a b where x: "x = (a, b)" by (cases x)
  have s0a: "s0 \<le> a" and sa: "sorted (a # map fst rest)" and s0r: "sorted (s0 # map fst rest)"
    using Cons.prems(2) x by auto
  have ab: "a \<le> b" and wf: "\<forall>x\<in>set rest. fst x \<le> snd x" using Cons.prems(3) x by auto
  show ?case
  proof (cases "a - d - 1 \<le> p")
    case True
    have "s0 \<le> b" using s0a ab by simp
    then show ?thesis using Cons.IH[OF _ s0r wf, of b] Cons.prems(4) x True by simp
  next
    case False
    then have "r = (s0, p) \<or> r \<in> set (merge_open d a b rest)" using Cons.prems x by simp
    then show ?thesis using Cons.IH[OF ab sa wf] Cons.prems(1) by auto
  qed
qed

lemma merge_open_separated:
  "0 \<le> d \<Longrightarrow> sorted (s0 # map fst rest) \<Longrightarrow> \<forall>x\<in>set rest. fst x \<le> snd x \<Longrightarrow>
   sorted_wrt (\<lambda>u v. snd u < fst v) (merge_open d s0 p rest)"
proof (induction rest arbitrary: s0 p)
  case Nil
  then show ?case by simp
next
  case (Cons x rest)
  obtain a b where x: "x = (a, b)" by (cases x)
  have s0a: "s0 \<le> a" and sa: "sorted (a # map fst rest)" and s0r: "sorted (s0 # map fst rest)"
    using Cons.prems(2) x by auto
  have wf: "\<forall>x\<in>set rest. fst x \<le> snd x" using Cons.prems(3) by simp
  show ?case
  proof (cases "a - d - 1 \<le> p")
    case True
    then show ?thesis using Cons.IH[OF Cons.prems(1) s0r wf, of b] x by simp
  next
    case False
    have "\<forall>r\<in>set (merge_open d a b rest). p < fst r"
    proof
      fix r assume "r \<in> set (merge_open d a b rest)"
      then have "a \<le> fst r" using merge_open_lower[OF sa] by simp
      then show "p < fst r" using False Cons.prems(1) by simp
    qed
    then show ?thesis using Cons.IH[OF Cons.prems(1) sa wf, of b] False x by simp
  qed
qed

lemma merge_open_sorted:
  "sorted (s0 # map fst rest) \<Longrightarrow> sorted (map fst (merge_open d s0 p rest))"
proof (induction rest arbitrary: s0 p)
  case Nil
  then show ?case by simp
next
  case (Cons x rest)
  obtain a b where x: "x = (a, b)" by (cases x)
  have s0a: "s0 \<le> a" and sa: "sorted (a # map fst rest)" and s0r: "sorted (s0 # map fst rest)"
    using Cons.prems(1) x by auto
  show ?case
  proof (cases "a - d - 1 \<le> p")
    case True
    then show ?thesis using Cons.IH[OF s0r, of b] x by simp
  next
    case False
    have "\<forall>r\<in>set (merge_open d a b rest). s0 \<le> fst r"
      using merge_open_lower[OF sa] s0a by fastforce
    then show ?thesis using Cons.IH[OF sa, of b] False x by simp
  qed
qed

lemma merge_open_covers:
  "sorted (s0 # map fst rest) \<Longrightarrow> sorted (p # map snd rest) \<Longrightarrow>
   x \<in> set ((s0, p) # rest) \<Longrightarrow>
   \<exists>r\<in>set (merge_open d s0 p rest). fst r \<le> fst x \<and> snd x \<le> snd r"
proof (induction rest arbitrary: s0 p x)
  case Nil
  then show ?case by simp
next
  case (Cons y rest)
  obtain a b where y: "y = (a, b)" by (cases y)
  have s0a: "s0 \<le> a" and sa: "sorted (a # map fst rest)" and s0r: "sorted (s0 # map fst rest)"
    using Cons.prems(1) y by auto
  have pb: "p \<le> b" and sb: "sorted (b # map snd rest)"
    using Cons.prems(2) y by auto
  show ?case
  proof (cases "a - d - 1 \<le> p")
    case True
    have cov: "\<And>z. z \<in> set ((s0, b) # rest) \<Longrightarrow>
        \<exists>r\<in>set (merge_open d s0 b rest). fst r \<le> fst z \<and> snd z \<le> snd r"
      using Cons.IH[OF s0r sb] by blast
    from cov[of "(s0, b)"] obtain r0 where r0: "r0 \<in> set (merge_open d s0 b rest)"
      "fst r0 \<le> s0" "b \<le> snd r0" by auto
    have "x = (s0, p) \<or> x = (a, b) \<or> x \<in> set rest" using Cons.prems(3) y by auto
    then show ?thesis
    proof (elim disjE)
      assume "x = (s0, p)"
      then have "fst r0 \<le> fst x \<and> snd x \<le> snd r0" using r0 pb by simp
      then show ?thesis using r0(1) True y by auto
    next
      assume "x = (a, b)"
      then have "fst r0 \<le> fst x \<and> snd x \<le> snd r0" using r0 s0a by simp
      then show ?thesis using r0(1) True y by auto
    next
      assume "x \<in> set rest"
      then show ?thesis using cov[of x] True y by simp
    qed
  next
    case False
    have "x = (s0, p) \<or> x \<in> set ((a, b) # rest)" using Cons.prems(3) y by auto
    then show ?thesis
    proof
      assume "x = (s0, p)"
      then show ?thesis using False y by simp
    next
      assume "x \<in> set ((a, b) # rest)"
      then show ?thesis using Cons.IH[OF sa sb, of x] False y by auto
    qed
  qed
qed

lemma sorted_map_fst_lex:
  fixes xs :: "(int \<times> int) list"
  shows "sorted xs \<Longrightarrow> sorted (map fst xs)"
  by (induction xs) (auto simp: less_eq_prod_def)

lemma hd_tl_sort: "xs \<noteq> [] \<Longrightarrow> hd (sort xs) # tl (sort xs) = sort xs"
  by (metis hd_Cons_tl length_greater_0_conv length_sort)

text \<open>
  Claim C10, as amended. The claim promises sorted, non-overlapping output that covers
  every input interval, for every list of intervals. The loop overwrites the stop of the
  open interval with the stop of the interval it merges, without taking the maximum, so
  an interval nested inside an earlier one shrinks the merged interval and the outer
  interval is no longer covered. Proved: for a non-negative merge distance and intervals
  with \<open>start \<le> stop\<close>, the output is sorted by start and every returned interval
  ends strictly before every later one begins; and when the stops of the sorted input
  are non-decreasing as well (no interval ends before one that sorts earlier ends, which
  holds for pairwise disjoint intervals), every input interval lies inside some returned
  interval.
\<close>

theorem merge_adjacent_intervals_nonnested:
  assumes d: "0 \<le> d" and wf: "\<forall>x\<in>set intervals. fst x \<le> snd x"
  shows "sorted (map fst (merge_adjacent_intervals intervals d))
       \<and> sorted_wrt (\<lambda>u v. snd u < fst v) (merge_adjacent_intervals intervals d)
       \<and> (sorted (map snd (sort intervals)) \<longrightarrow>
            (\<forall>x\<in>set intervals. \<exists>r\<in>set (merge_adjacent_intervals intervals d).
                fst r \<le> fst x \<and> snd x \<le> snd r))"
proof (cases "intervals = []")
  case True
  then show ?thesis by (simp add: merge_adjacent_intervals_def)
next
  case False
  define s0 where "s0 = fst (hd (sort intervals))"
  define p where "p = snd (hd (sort intervals))"
  define rest where "rest = tl (sort intervals)"
  have srt: "(s0, p) # rest = sort intervals"
    using hd_tl_sort[OF False] by (simp add: s0_def p_def rest_def)
  have eq: "merge_adjacent_intervals intervals d = merge_open d s0 p rest"
    using merge_adjacent_intervals_open[OF False] by (simp add: s0_def p_def rest_def)
  have "sorted (map fst (sort intervals))" by (rule sorted_map_fst_lex) simp
  then have sf: "sorted (s0 # map fst rest)" using srt[symmetric] by simp
  have "set ((s0, p) # rest) = set intervals" using srt by simp
  then have mem: "(s0, p) \<in> set intervals" "set rest \<subseteq> set intervals" by auto
  have s0p: "s0 \<le> p" using wf mem(1) by fastforce
  have wfr: "\<forall>x\<in>set rest. fst x \<le> snd x" using wf mem(2) by blast
  have 1: "sorted (map fst (merge_open d s0 p rest))" by (rule merge_open_sorted[OF sf])
  have 2: "sorted_wrt (\<lambda>u v. snd u < fst v) (merge_open d s0 p rest)"
    by (rule merge_open_separated[OF d sf wfr])
  have 3: "\<exists>r\<in>set (merge_open d s0 p rest). fst r \<le> fst x \<and> snd x \<le> snd r"
    if ss: "sorted (map snd (sort intervals))" and x: "x \<in> set intervals" for x
  proof -
    have "sorted (p # map snd rest)" using ss srt[symmetric] by simp
    moreover have "x \<in> set ((s0, p) # rest)" using x srt by simp
    ultimately show ?thesis using merge_open_covers[OF sf] by blast
  qed
  show ?thesis using 1 2 3 eq by simp
qed

theorem merge_adjacent_intervals_nonnested_witness:
  "(0::int) \<le> 0
   \<and> list_all (\<lambda>x. fst x \<le> snd x) [(5, 6), (0, 1), (2, 3), (9::int, 12::int)]
   \<and> sorted (map snd (sort [(5, 6), (0, 1), (2, 3), (9::int, 12::int)]))
   \<and> merge_adjacent_intervals [(5, 6), (0, 1), (2, 3), (9, 12)] 0 = [(0, 3), (5, 6), (9, 12)]
   \<and> list_all (\<lambda>x. list_ex (\<lambda>r. fst r \<le> fst x \<and> snd x \<le> snd r)
        (merge_adjacent_intervals [(5, 6), (0, 1), (2, 3), (9, 12)] 0))
        [(5, 6), (0, 1), (2, 3), (9, 12)]"
proof -
  have s: "sort [(5, 6), (0, 1), (2, 3), (9::int, 12::int)] = [(0, 1), (2, 3), (5, 6), (9, 12)]"
    by code_simp
  have m: "merge_adjacent_intervals [(5, 6), (0, 1), (2, 3), (9, 12)] 0 = [(0, 3), (5, 6), (9, 12)]"
    by (simp add: merge_adjacent_intervals_def s)
  show ?thesis
    using merge_adjacent_intervals_nonnested[of 0 "[(5, 6), (0, 1), (2, 3), (9, 12)]"]
    by (simp add: s m)
qed

theorem merge_adjacent_intervals_nested_counterexample:
  "\<not> (\<exists>r\<in>set (merge_adjacent_intervals [(0, 10), (2, 3)] 0). fst r \<le> 0 \<and> 10 \<le> snd r)"
proof -
  have s: "sort [(0, 10), (2::int, 3::int)] = [(0, 10), (2, 3)]"
    by code_simp
  show ?thesis by (simp add: merge_adjacent_intervals_def s)
qed

subsection \<open>Scores in the assembly output\<close>








lemma score_example:
  "max 1 (min 1000 (py_int ((1000 * (27 / 10)) / (1 / 10 ^ 8 + Max (set [1000]))))) = 2"
  by (simp add: py_int_def)




subsection \<open>Edges of the splice graph\<close>



















subsection \<open>Expression estimate of an assembled exon\<close>

lemma py_min_Min: "l \<noteq> [] \<Longrightarrow> py_min l = Inr (Min (set l))"
proof (cases l)
  case Nil
  assume "l \<noteq> []"
  then show ?thesis using Nil by simp
next
  case (Cons a list)
  then show ?thesis using Min.set_eq_fold[of a list] by simp
qed

lemma py_max_ok: "l \<noteq> [] \<Longrightarrow> \<exists>m. py_max l = Inr m"
  by (cases l) simp_all

lemma determine_exon_type_ok:
  "a \<in> set EXON_START_LABELS \<Longrightarrow> b \<in> set EXON_STOP_LABELS \<Longrightarrow>
   \<exists>ty. determine_exon_type a b = Inr ty"
  by (auto simp: determine_exon_type_def EXON_START_LABELS_def EXON_STOP_LABELS_def)

lemma stop_label_loop_ok:
  assumes "i \<le> j" "j < length segs" "a \<in> set EXON_START_LABELS"
    "sb_start (segs ! i) \<le> sb_stop (segs ! j)"
  shows "\<exists>built. stop_label_loop segs i a j labels = Inr built
           \<and> (\<forall>e\<in>set built. exon_of_run segs e i j)"
proof (induction labels)
  case Nil
  show ?case by simp
next
  case (Cons b labels)
  from Cons obtain built where b: "stop_label_loop segs i a j labels = Inr built"
    "\<forall>e\<in>set built. exon_of_run segs e i j" by blast
  show ?case
  proof (cases "b \<in> set EXON_STOP_LABELS")
    case False
    then show ?thesis using b by simp
  next
    case True
    have ne: "map fpkm (take (j + 1 - i) (drop i segs)) \<noteq> []"
      using assms(1,2) by simp
    obtain ty where ty: "determine_exon_type a b = Inr ty"
      using determine_exon_type_ok[OF assms(3) True] by blast
    let ?e = "\<lparr>te_start = sb_start (segs ! i), te_stop = sb_stop (segs ! j), te_type = ty,
               te_fpkm = Min (set (map fpkm (take (j + 1 - i) (drop i segs))))\<rparr>"
    have new: "new_TranscriptElement (sb_start (segs ! i)) (sb_stop (segs ! j)) ty
                 (Min (set (map fpkm (take (j + 1 - i) (drop i segs))))) = Inr ?e"
      using assms(4) by (simp add: new_TranscriptElement_def)
    have "exon_of_run segs ?e i j" using assms(1,2) by (simp add: exon_of_run_def)
    then show ?thesis using True b ty new py_min_Min[OF ne] by simp
  qed
qed

lemma stop_segment_loop_ok:
  assumes "a \<in> set EXON_START_LABELS"
    and "\<forall>j\<in>set js. i \<le> j \<and> j < length segs \<and> sb_start (segs ! i) \<le> sb_stop (segs ! j)"
  shows "\<exists>built. stop_segment_loop lo ratio m segs i a js = Inr built
           \<and> (\<forall>e\<in>set built. \<exists>j. exon_of_run segs e i j)"
  using assms(2)
proof (induction js)
  case Nil
  show ?case by simp
next
  case (Cons j js)
  then obtain later where l: "stop_segment_loop lo ratio m segs i a js = Inr later"
    "\<forall>e\<in>set later. \<exists>j. exon_of_run segs e i j" by auto
  have j: "i \<le> j" "j < length segs" "sb_start (segs ! i) \<le> sb_stop (segs ! j)"
    using Cons.prems by auto
  obtain found where f: "stop_label_loop segs i a j (right_labels (segs ! j)) = Inr found"
    "\<forall>e\<in>set found. exon_of_run segs e i j"
    using stop_label_loop_ok[OF j(1,2) assms(1) j(3)] by blast
  show ?case using l f by (auto simp: Let_def)
qed

lemma start_label_loop_ok:
  assumes "i < length segs"
    and "\<forall>j. i \<le> j \<and> j < length segs \<longrightarrow> sb_start (segs ! i) \<le> sb_stop (segs ! j)"
  shows "\<exists>built. start_label_loop lo ratio m segs i labels = Inr built
           \<and> (\<forall>e\<in>set built. \<exists>j. exon_of_run segs e i j)"
proof (induction labels)
  case Nil
  show ?case by simp
next
  case (Cons a labels)
  then obtain later where l: "start_label_loop lo ratio m segs i labels = Inr later"
    "\<forall>e\<in>set later. \<exists>j. exon_of_run segs e i j" by auto
  show ?case
  proof (cases "a \<in> set EXON_START_LABELS")
    case False
    then show ?thesis using l by simp
  next
    case True
    have "\<forall>j\<in>set [i..<length segs]. i \<le> j \<and> j < length segs
            \<and> sb_start (segs ! i) \<le> sb_stop (segs ! j)"
      using assms(2) by simp
    from stop_segment_loop_ok[OF True this, of lo ratio m]
    obtain found where f: "stop_segment_loop lo ratio m segs i a [i..<length segs] = Inr found"
      "\<forall>e\<in>set found. \<exists>j. exon_of_run segs e i j" by blast
    show ?thesis using True l f by auto
  qed
qed

lemma start_segment_loop_ok:
  assumes "\<forall>i j. i \<le> j \<and> j < length segs \<longrightarrow> sb_start (segs ! i) \<le> sb_stop (segs ! j)"
  shows "\<forall>i\<in>set is. i < length segs \<Longrightarrow>
         \<exists>built. start_segment_loop lo ratio m segs is = Inr built
           \<and> (\<forall>e\<in>set built. \<exists>i j. exon_of_run segs e i j)"
proof (induction "is")
  case Nil
  show ?case by simp
next
  case (Cons i "is")
  then obtain later where l: "start_segment_loop lo ratio m segs is = Inr later"
    "\<forall>e\<in>set later. \<exists>i j. exon_of_run segs e i j" by auto
  have i: "i < length segs" using Cons.prems by simp
  have "\<forall>j. i \<le> j \<and> j < length segs \<longrightarrow> sb_start (segs ! i) \<le> sb_stop (segs ! j)"
    using assms by blast
  from start_label_loop_ok[OF i this, of lo ratio m "left_labels (segs ! i)"]
  obtain found where f:
    "start_label_loop lo ratio m segs i (left_labels (segs ! i)) = Inr found"
    "\<forall>e\<in>set found. \<exists>j. exon_of_run segs e i j" by blast
  have "\<forall>e\<in>set found. \<exists>i j. exon_of_run segs e i j" using f(2) by blast
  then show ?case using l f(1) by auto
qed

lemma run_min_le:
  assumes "i \<le> k" "k \<le> j" "j < length segs"
  shows "Min (set (map fpkm (take (j + 1 - i) (drop i segs)))) \<le> fpkm (segs ! k)"
proof -
  have "k - i < length (take (j + 1 - i) (drop i segs))" using assms by simp
  moreover have "take (j + 1 - i) (drop i segs) ! (k - i) = segs ! k" using assms by simp
  ultimately have "segs ! k \<in> set (take (j + 1 - i) (drop i segs))"
    by (metis nth_mem)
  then have "fpkm (segs ! k) \<in> set (map fpkm (take (j + 1 - i) (drop i segs)))" by simp
  then show ?thesis by (intro Min_le) simp_all
qed

lemma example_segments_ordered:
  "\<forall>i j. i \<le> j \<and> j < length example_segments \<longrightarrow>
     sb_start (example_segments ! i) \<le> sb_stop (example_segments ! j)"
  by (auto simp: example_segments_def seg_def nth_Cons' less_Suc_eq numeral_3_eq_3)

text \<open>
  Claim C5. For every non-empty list of exon segments in genomic order (no segment starts
  after a later one stops, so that the constructor's assertion holds),
  \<^verbatim>\<open>build_exons_from_exon_segments\<close> returns, and every exon it returns was
  assembled from a run of consecutive segments \<open>i..j\<close>: it starts where segment \<open>i\<close>
  starts, stops where segment \<open>j\<close> stops, and the fpkm recorded on it is the minimum of
  the fpkm of the segments \<open>i, \<dots>, j\<close>, hence at most the fpkm of each of them.
\<close>

theorem build_exons_fpkm_is_min:
  assumes "exon_segments \<noteq> []"
    and "\<forall>i j. i \<le> j \<and> j < length exon_segments \<longrightarrow>
           sb_start (exon_segments ! i) \<le> sb_stop (exon_segments ! j)"
  shows "\<exists>built. build_exons_from_exon_segments MIN_EXON_FPKM MAX_EXPRESISON_RATIO exon_segments
                   = Inr built
     \<and> (\<forall>e\<in>set built. \<exists>i j. i \<le> j \<and> j < length exon_segments
           \<and> te_start e = sb_start (exon_segments ! i)
           \<and> te_stop e = sb_stop (exon_segments ! j)
           \<and> te_fpkm e = Min (set (map fpkm (take (j + 1 - i) (drop i exon_segments))))
           \<and> (\<forall>k. i \<le> k \<and> k \<le> j \<longrightarrow> te_fpkm e \<le> fpkm (exon_segments ! k)))"
proof -
  obtain m where m: "py_max (map fpkm_lb exon_segments) = Inr m"
    using py_max_ok[of "map fpkm_lb exon_segments"] assms(1) by auto
  obtain m' where m': "py_max (map fpkm exon_segments) = Inr m'"
    using py_max_ok[of "map fpkm exon_segments"] assms(1) by auto
  have "\<forall>i\<in>set [0..<length exon_segments]. i < length exon_segments" by simp
  from start_segment_loop_ok[OF assms(2) this, of MIN_EXON_FPKM MAX_EXPRESISON_RATIO m]
  obtain built where b:
    "start_segment_loop MIN_EXON_FPKM MAX_EXPRESISON_RATIO m exon_segments
       [0..<length exon_segments] = Inr built"
    "\<forall>e\<in>set built. \<exists>i j. exon_of_run exon_segments e i j" by blast
  have "\<exists>i j. i \<le> j \<and> j < length exon_segments
           \<and> te_start e = sb_start (exon_segments ! i)
           \<and> te_stop e = sb_stop (exon_segments ! j)
           \<and> te_fpkm e = Min (set (map fpkm (take (j + 1 - i) (drop i exon_segments))))
           \<and> (\<forall>k. i \<le> k \<and> k \<le> j \<longrightarrow> te_fpkm e \<le> fpkm (exon_segments ! k))"
    if "e \<in> set built" for e
  proof -
    from b(2) that obtain i j where r: "exon_of_run exon_segments e i j" by blast
    then have "\<forall>k. i \<le> k \<and> k \<le> j \<longrightarrow> te_fpkm e \<le> fpkm (exon_segments ! k)"
      using run_min_le[of i _ j exon_segments] by (simp add: exon_of_run_def)
    then show ?thesis using r unfolding exon_of_run_def by blast
  qed
  moreover have "build_exons_from_exon_segments MIN_EXON_FPKM MAX_EXPRESISON_RATIO exon_segments
                   = Inr built"
    using m m' b(1) by (simp add: build_exons_from_exon_segments_def)
  ultimately show ?thesis by blast
qed

theorem build_exons_fpkm_is_min_witness:
  "example_segments \<noteq> []
   \<and> build_exons_from_exon_segments 1 10 example_segments =
       Inr [\<lparr>te_start = 0, te_stop = 99, te_type = ''TSS_EXON'', te_fpkm = 5\<rparr>,
            \<lparr>te_start = 0, te_stop = 299, te_type = ''SE_GENE'', te_fpkm = 2\<rparr>,
            \<lparr>te_start = 200, te_stop = 299, te_type = ''TES_EXON'', te_fpkm = 8\<rparr>]
   \<and> (\<exists>built. build_exons_from_exon_segments 1 10 example_segments = Inr built
        \<and> list_all (\<lambda>e. \<exists>i j. i \<le> j \<and> j < length example_segments
             \<and> te_start e = sb_start (example_segments ! i)
             \<and> te_stop e = sb_stop (example_segments ! j)
             \<and> te_fpkm e = Min (set (map fpkm (take (j + 1 - i) (drop i example_segments)))))
           built)"
proof -
  have ne: "example_segments \<noteq> []" by (simp add: example_segments_def)
  have run: "build_exons_from_exon_segments 1 10 example_segments =
       Inr [\<lparr>te_start = 0, te_stop = 99, te_type = ''TSS_EXON'', te_fpkm = 5\<rparr>,
            \<lparr>te_start = 0, te_stop = 299, te_type = ''SE_GENE'', te_fpkm = 2\<rparr>,
            \<lparr>te_start = 200, te_stop = 299, te_type = ''TES_EXON'', te_fpkm = 8\<rparr>]"
    by code_simp
  from build_exons_fpkm_is_min[OF ne example_segments_ordered, of 1 10]
  obtain built where b: "build_exons_from_exon_segments 1 10 example_segments = Inr built"
    "\<forall>e\<in>set built. \<exists>i j. i \<le> j \<and> j < length example_segments
           \<and> te_start e = sb_start (example_segments ! i)
           \<and> te_stop e = sb_stop (example_segments ! j)
           \<and> te_fpkm e = Min (set (map fpkm (take (j + 1 - i) (drop i example_segments))))
           \<and> (\<forall>k. i \<le> k \<and> k \<le> j \<longrightarrow> te_fpkm e \<le> fpkm (example_segments ! k))"
    by blast
  have "list_all (\<lambda>e. \<exists>i j. i \<le> j \<and> j < length example_segments
             \<and> te_start e = sb_start (example_segments ! i)
             \<and> te_stop e = sb_stop (example_segments ! j)
             \<and> te_fpkm e = Min (set (map fpkm (take (j + 1 - i) (drop i example_segments)))))
           built"
    unfolding list_all_iff using b(2) by blast
  then show ?thesis using ne run b(1) by blast
qed

subsection \<open>FPKM conversion\<close>





subsection \<open>Records of the abundance-tracking output\<close>

text \<open>
  Claim C8: the records are not aligned with the declared header. The header names its
  first column \<open>tracking_id\<close>, its fourth \<open>gene_id\<close> and its sixth \<open>tss_id\<close>; the
  writer puts the gene identifier in the first cell, leaves the fourth at \<open>-\<close> and puts
  the transcript identifier in the sixth. Evaluated on a gene with two transcripts.
\<close>

theorem fpkm_tracking_columns_misaligned:
  "tracking_loop fmt calc_length g1 (Some [1, 2]) (Some [3, 4]) (Some [5, 6]) [] 0
       (enumerate 0 (transcripts g1)) =
     Inr [[''G1'', ''-'', ''-'', ''-'', ''-'', ''G1_0'', ''chr2L:100-199'', str_int (calc_length t1),
           fmt 5, fmt 1, fmt 3, ''OK''],
          [''G1'', ''-'', ''-'', ''-'', ''-'', ''G1_1'', ''chr2L:100-399'', str_int (calc_length t2),
           fmt 6, fmt 2, fmt 4, ''OK'']]
   \<and> fpkm_tracking_columns ! 0 = ''tracking_id''
   \<and> fpkm_tracking_columns ! 3 = ''gene_id''
   \<and> fpkm_tracking_columns ! 5 = ''tss_id''"
proof -
  have l: "str_int 100 = ''100''" "str_int 199 = ''199''" "str_int 399 = ''399''"
    by code_simp+
  have r: "replicate 12 ''-'' = [''-'', ''-'', ''-'', ''-'', ''-'', ''-'', ''-'', ''-'', ''-'', ''-'', ''-'', ''-'']"
    by (simp add: eval_nat_numeral)
  show ?thesis
    by (simp add: g1_def enumerate_eq_zip tracking_cell_def py_index_def
        fpkm_tracking_columns_def l r t1_def[symmetric] t2_def[symmetric])
      (simp add: t1_def t2_def l)
qed

subsection \<open>When the scheduler leaves its loop\<close>



lemma take_work_keeps_slots: "ps (take_work d s) = ps s"
  by (auto simp: take_work_def Let_def split: work_data.splits)







subsection \<open>Exceptions in a stage body\<close>













end
